theory Spec2Isabelle
  imports Main "HOL-Library.Word"
begin


section \<open>Solidity values, reverts and checked arithmetic\<close>

text \<open>
  The contracts are compiled with \<^verbatim>\<open>pragma solidity ^0.8.x\<close>: an \<^verbatim>\<open>address\<close> is a 160-bit
  value, \<^verbatim>\<open>uint\<close> and \<^verbatim>\<open>uint256\<close> are 256-bit unsigned integers, and \<^verbatim>\<open>+\<close>, \<^verbatim>\<open>-\<close>, \<^verbatim>\<open>*\<close>
  and \<^verbatim>\<open>/\<close> revert with \<^verbatim>\<open>Panic\<close> instead of wrapping around.  A call that reverts leaves the
  contract's storage as it was before the call; in the model a reverting function returns
  \<open>Inl\<close> of the reason and no state, and the caller goes on with the state it had.
  \<^verbatim>\<open>require(c, "m")\<close> becomes \<open>if \<not> c then Inl (Error ''m'') else ...\<close>, and a
  \<^verbatim>\<open>mapping(address => uint256)\<close> is a total function with default \<open>0\<close>.
\<close>

type_synonym address = "160 word"

type_synonym uint256 = "256 word"

datatype error =
    Error string                        \<comment> \<open>\<^verbatim>\<open>require(cond, "message")\<close>\<close>
  | Panic nat                           \<comment> \<open>\<^verbatim>\<open>Panic(0x11)\<close> overflow, \<^verbatim>\<open>Panic(0x12)\<close> division by zero\<close>
  | InsufficientBalance uint256 uint256 \<comment> \<open>Coin's custom error: requested, available\<close>

definition checked_add :: "uint256 \<Rightarrow> uint256 \<Rightarrow> error + uint256" where
  "checked_add a b = (if unat a + unat b < 2 ^ 256 then Inr (a + b) else Inl (Panic 17))"

definition checked_sub :: "uint256 \<Rightarrow> uint256 \<Rightarrow> error + uint256" where
  "checked_sub a b = (if b \<le> a then Inr (a - b) else Inl (Panic 17))"

definition checked_mul :: "uint256 \<Rightarrow> uint256 \<Rightarrow> error + uint256" where
  "checked_mul a b = (if unat a * unat b < 2 ^ 256 then Inr (a * b) else Inl (Panic 17))"

definition checked_div :: "uint256 \<Rightarrow> uint256 \<Rightarrow> error + uint256" where
  "checked_div a b = (if b = 0 then Inl (Panic 18) else Inr (a div b))"

text \<open>
The state a caller is left with: the new one on success, the old one on revert.
\<close>

definition commit :: "'s \<Rightarrow> error + 's \<Rightarrow> 's" where
  "commit s r = (case r of Inl e \<Rightarrow> s | Inr s' \<Rightarrow> s')"

text \<open>
The sum of all entries of a \<^verbatim>\<open>mapping(address => uint256)\<close>, as a natural number.
\<close>

definition sum_balances :: "(address \<Rightarrow> uint256) \<Rightarrow> nat" where
  "sum_balances b = (\<Sum>a\<in>UNIV. unat (b a))"


section \<open>Coin (CoreContracts/Simple\_Coin.sol)\<close>

text \<open>
  \<^verbatim>\<open>mint\<close> and \<^verbatim>\<open>send\<close> take \<^verbatim>\<open>msg.sender\<close> as their second argument.  \<^verbatim>\<open>send\<close> reverts with
  the custom error \<^verbatim>\<open>InsufficientBalance(requested, available)\<close>.
\<close>

datatype coin_event = Sent address address uint256

record coin_state =
  minter :: address
  coin_balances :: "address \<Rightarrow> uint256"
  coin_events :: "coin_event list"

definition Coin_constructor :: "address \<Rightarrow> coin_state" where
  "Coin_constructor sender = \<lparr>minter = sender, coin_balances = (\<lambda>_. 0), coin_events = []\<rparr>"

definition Coin_mint :: "coin_state \<Rightarrow> address \<Rightarrow> address \<Rightarrow> uint256 \<Rightarrow> error + coin_state" where
  "Coin_mint s sender receiver amount =
     (if sender \<noteq> minter s then Inl (Error ''Only the minter can create new coins'')
      else (case checked_add (coin_balances s receiver) amount of
              Inl e \<Rightarrow> Inl e
            | Inr b \<Rightarrow> Inr (s\<lparr>coin_balances := (coin_balances s)(receiver := b)\<rparr>)))"

definition Coin_send :: "coin_state \<Rightarrow> address \<Rightarrow> address \<Rightarrow> uint256 \<Rightarrow> error + coin_state" where
  "Coin_send s sender receiver amount =
     (if amount > coin_balances s sender
      then Inl (InsufficientBalance amount (coin_balances s sender))
      else (case checked_sub (coin_balances s sender) amount of
              Inl e \<Rightarrow> Inl e
            | Inr b1 \<Rightarrow>
                (let s1 = s\<lparr>coin_balances := (coin_balances s)(sender := b1)\<rparr> in
                 (case checked_add (coin_balances s1 receiver) amount of
                    Inl e \<Rightarrow> Inl e
                  | Inr b2 \<Rightarrow>
                      (let s2 = s1\<lparr>coin_balances := (coin_balances s1)(receiver := b2)\<rparr>
                       in Inr (s2\<lparr>coin_events :=
                                    coin_events s2 @ [Sent sender receiver amount]\<rparr>))))))"


section \<open>SimpleCoin\<close>

text \<open>
  SimpleCoin keeps no supply variable: its \<^verbatim>\<open>totalSupply()\<close> returns \<^verbatim>\<open>balanceOf[owner]\<close>
  (the source calls this a simplified implementation).  In \<^verbatim>\<open>transfer\<close> and \<^verbatim>\<open>mint\<close> the sum
  inside \<^verbatim>\<open>require(balanceOf[_to] + _value >= balanceOf[_to], ...)\<close> is itself checked.
\<close>

datatype sc_event = Sc_Transfer address address uint256 | Sc_Mint address uint256

record sc_state =
  sc_owner :: address
  sc_name :: string
  sc_symbol :: string
  decimals :: "8 word"
  balanceOf :: "address \<Rightarrow> uint256"
  sc_events :: "sc_event list"

definition SimpleCoin_constructor ::
  "address \<Rightarrow> uint256 \<Rightarrow> string \<Rightarrow> string \<Rightarrow> error + sc_state" where
  "SimpleCoin_constructor sender initialSupply name' symbol' =
     (let s = \<lparr>sc_owner = sender, sc_name = name', sc_symbol = symbol', decimals = 18,
               balanceOf = (\<lambda>_. 0), sc_events = []\<rparr> in
      (case checked_mul initialSupply (10 ^ unat (decimals s)) of
         Inl e \<Rightarrow> Inl e
       | Inr b \<Rightarrow>
           (let s1 = s\<lparr>balanceOf := (balanceOf s)(sender := b)\<rparr>
            in Inr (s1\<lparr>sc_events := sc_events s1 @ [Sc_Mint sender (balanceOf s1 sender)]\<rparr>))))"

definition SimpleCoin_transfer ::
  "sc_state \<Rightarrow> address \<Rightarrow> address \<Rightarrow> uint256 \<Rightarrow> error + sc_state" where
  "SimpleCoin_transfer s sender to value' =
     (if \<not> (balanceOf s sender \<ge> value') then Inl (Error ''Insufficient balance'')
      else (case checked_add (balanceOf s to) value' of
              Inl e \<Rightarrow> Inl e
            | Inr t \<Rightarrow>
                if \<not> (t \<ge> balanceOf s to) then Inl (Error ''Overflow detected'')
                else (case checked_sub (balanceOf s sender) value' of
                        Inl e \<Rightarrow> Inl e
                      | Inr b1 \<Rightarrow>
                          (let s1 = s\<lparr>balanceOf := (balanceOf s)(sender := b1)\<rparr> in
                           (case checked_add (balanceOf s1 to) value' of
                              Inl e \<Rightarrow> Inl e
                            | Inr b2 \<Rightarrow>
                                (let s2 = s1\<lparr>balanceOf := (balanceOf s1)(to := b2)\<rparr>
                                 in Inr (s2\<lparr>sc_events :=
                                           sc_events s2 @ [Sc_Transfer sender to value']\<rparr>)))))))"

definition SimpleCoin_mint ::
  "sc_state \<Rightarrow> address \<Rightarrow> address \<Rightarrow> uint256 \<Rightarrow> error + sc_state" where
  "SimpleCoin_mint s sender to value' =
     (if \<not> (sender = sc_owner s) then Inl (Error ''Only owner can mint'')
      else (case checked_add (balanceOf s to) value' of
              Inl e \<Rightarrow> Inl e
            | Inr t \<Rightarrow>
                if \<not> (t \<ge> balanceOf s to) then Inl (Error ''Overflow detected'')
                else (case checked_add (balanceOf s to) value' of
                        Inl e \<Rightarrow> Inl e
                      | Inr b \<Rightarrow>
                          (let s1 = s\<lparr>balanceOf := (balanceOf s)(to := b)\<rparr>
                           in Inr (s1\<lparr>sc_events :=
                                      sc_events s1 @
                                        [Sc_Mint to value', Sc_Transfer 0 to value']\<rparr>)))))"

definition SimpleCoin_totalSupply :: "sc_state \<Rightarrow> uint256" where
  "SimpleCoin_totalSupply s = balanceOf s (sc_owner s)"


section \<open>TokenBase, TokenPool and AdminExtension\<close>

text \<open>
  One record holds the storage of the whole inheritance chain: \<^verbatim>\<open>_balances\<close> and
  \<^verbatim>\<open>_totalSupply\<close> of TokenBase (\<open>tb_balances\<close>, \<open>tb_totalSupply\<close>), the fields of TokenPool,
  \<^verbatim>\<open>admins\<close> of AdminExtension, the ether held by the contract and the event log.
  \<^verbatim>\<open>_transfer\<close>, \<^verbatim>\<open>_mint\<close> and \<^verbatim>\<open>_burn\<close> are \<open>TokenBase_transfer\<close>, \<open>TokenBase_mint\<close> and
  \<open>TokenBase_burn\<close>.  \<^verbatim>\<open>sellTokens\<close> and \<^verbatim>\<open>emergencyWithdraw\<close> send ether with a low-level
  call; as for SecurityPitfalls below, the behaviour of the receiving code is a parameter, and
  in a \<open>tp_call\<close> it is given as the list of calls the receiver makes back into the contract
  and the flag it reports.  A TokenPool deployed on its own is the state of
  \<open>TokenPool_constructor\<close>, in which no account is an admin.
\<close>

datatype tp_event = Transfer_ev address address uint256

record tp_state =
  tb_balances :: "address \<Rightarrow> uint256"
  tb_totalSupply :: uint256
  tp_name :: string
  tp_symbol :: string
  tp_owner :: address
  buyRate :: uint256
  sellRate :: uint256
  admins :: "address \<Rightarrow> bool"
  tp_this_balance :: nat
  tp_events :: "tp_event list"

type_synonym tp_effect = "tp_state \<Rightarrow> bool \<times> tp_state"

definition TokenBase_transfer ::
  "tp_state \<Rightarrow> address \<Rightarrow> address \<Rightarrow> uint256 \<Rightarrow> error + tp_state" where
  "TokenBase_transfer s from to amount =
     (if \<not> (from \<noteq> 0) then Inl (Error ''Transfer from zero address'')
      else if \<not> (to \<noteq> 0) then Inl (Error ''Transfer to zero address'')
      else if \<not> (tb_balances s from \<ge> amount) then Inl (Error ''Insufficient balance'')
      else (case checked_sub (tb_balances s from) amount of
              Inl e \<Rightarrow> Inl e
            | Inr b1 \<Rightarrow>
                (let s1 = s\<lparr>tb_balances := (tb_balances s)(from := b1)\<rparr> in
                 (case checked_add (tb_balances s1 to) amount of
                    Inl e \<Rightarrow> Inl e
                  | Inr b2 \<Rightarrow>
                      (let s2 = s1\<lparr>tb_balances := (tb_balances s1)(to := b2)\<rparr>
                       in Inr (s2\<lparr>tp_events := tp_events s2 @ [Transfer_ev from to amount]\<rparr>))))))"

definition TokenBase_mint :: "tp_state \<Rightarrow> address \<Rightarrow> uint256 \<Rightarrow> error + tp_state" where
  "TokenBase_mint s account amount =
     (if \<not> (account \<noteq> 0) then Inl (Error ''Mint to zero address'')
      else (case checked_add (tb_totalSupply s) amount of
              Inl e \<Rightarrow> Inl e
            | Inr t \<Rightarrow>
                (let s1 = s\<lparr>tb_totalSupply := t\<rparr> in
                 (case checked_add (tb_balances s1 account) amount of
                    Inl e \<Rightarrow> Inl e
                  | Inr b \<Rightarrow>
                      (let s2 = s1\<lparr>tb_balances := (tb_balances s1)(account := b)\<rparr>
                       in Inr (s2\<lparr>tp_events := tp_events s2 @ [Transfer_ev 0 account amount]\<rparr>))))))"

definition TokenBase_burn :: "tp_state \<Rightarrow> address \<Rightarrow> uint256 \<Rightarrow> error + tp_state" where
  "TokenBase_burn s account amount =
     (if \<not> (account \<noteq> 0) then Inl (Error ''Burn from zero address'')
      else if \<not> (tb_balances s account \<ge> amount) then Inl (Error ''Burn amount exceeds balance'')
      else (case checked_sub (tb_balances s account) amount of
              Inl e \<Rightarrow> Inl e
            | Inr b \<Rightarrow>
                (let s1 = s\<lparr>tb_balances := (tb_balances s)(account := b)\<rparr> in
                 (case checked_sub (tb_totalSupply s1) amount of
                    Inl e \<Rightarrow> Inl e
                  | Inr t \<Rightarrow>
                      (let s2 = s1\<lparr>tb_totalSupply := t\<rparr>
                       in Inr (s2\<lparr>tp_events := tp_events s2 @ [Transfer_ev account 0 amount]\<rparr>))))))"

definition isValidAmount :: "uint256 \<Rightarrow> bool" where
  "isValidAmount value' = (value' > 0)"

definition TokenPool_constructor ::
  "address \<Rightarrow> string \<Rightarrow> string \<Rightarrow> uint256 \<Rightarrow> uint256 \<Rightarrow> uint256 \<Rightarrow> error + tp_state" where
  "TokenPool_constructor sender name' symbol' initialSupply buyRate' sellRate' =
     TokenBase_mint
       \<lparr>tb_balances = (\<lambda>_. 0), tb_totalSupply = 0, tp_name = name', tp_symbol = symbol',
        tp_owner = sender, buyRate = buyRate', sellRate = sellRate', admins = (\<lambda>_. False),
        tp_this_balance = 0, tp_events = []\<rparr>
       sender initialSupply"

definition AdminExtension_constructor ::
  "address \<Rightarrow> string \<Rightarrow> string \<Rightarrow> uint256 \<Rightarrow> uint256 \<Rightarrow> uint256 \<Rightarrow> error + tp_state" where
  "AdminExtension_constructor sender name' symbol' initialSupply buyRate' sellRate' =
     (case TokenPool_constructor sender name' symbol' initialSupply buyRate' sellRate' of
        Inl e \<Rightarrow> Inl e
      | Inr s \<Rightarrow> Inr (s\<lparr>admins := (admins s)(sender := True)\<rparr>))"

definition TokenPool_balanceOf :: "tp_state \<Rightarrow> address \<Rightarrow> uint256" where
  "TokenPool_balanceOf s account = tb_balances s account"

definition TokenPool_totalSupply :: "tp_state \<Rightarrow> uint256" where
  "TokenPool_totalSupply s = tb_totalSupply s"

definition TokenPool_transfer ::
  "tp_state \<Rightarrow> address \<Rightarrow> address \<Rightarrow> uint256 \<Rightarrow> error + tp_state" where
  "TokenPool_transfer s sender to amount = TokenBase_transfer s sender to amount"

definition tp_call_value :: "tp_effect \<Rightarrow> tp_state \<Rightarrow> uint256 \<Rightarrow> bool \<times> tp_state" where
  "tp_call_value ext s v =
     (if tp_this_balance s < unat v then (False, s)
      else case ext (s\<lparr>tp_this_balance := tp_this_balance s - unat v\<rparr>) of
             (ok, s') \<Rightarrow> if ok then (True, s') else (False, s))"

definition buyTokens :: "tp_state \<Rightarrow> address \<Rightarrow> uint256 \<Rightarrow> error + tp_state" where
  "buyTokens s sender v =
     (let s0 = s\<lparr>tp_this_balance := tp_this_balance s + unat v\<rparr> in
      if \<not> (v > 0) then Inl (Error ''Must send ETH to buy tokens'')
      else (case checked_mul v (buyRate s0) of
              Inl e \<Rightarrow> Inl e
            | Inr tokenAmount \<Rightarrow>
                if \<not> isValidAmount tokenAmount then Inl (Error ''Invalid amount'')
                else TokenBase_mint s0 sender tokenAmount))"

definition sellTokens ::
  "tp_effect \<Rightarrow> tp_state \<Rightarrow> address \<Rightarrow> uint256 \<Rightarrow> error + tp_state" where
  "sellTokens ext s sender tokenAmount =
     (if \<not> isValidAmount tokenAmount then Inl (Error ''Amount must be greater than 0'')
      else if \<not> (tb_balances s sender \<ge> tokenAmount) then Inl (Error ''Insufficient balance'')
      else (case checked_div tokenAmount (sellRate s) of
              Inl e \<Rightarrow> Inl e
            | Inr ethAmount \<Rightarrow>
                if \<not> (tp_this_balance s \<ge> unat ethAmount) then Inl (Error ''Insufficient liquidity'')
                else (case TokenBase_burn s sender tokenAmount of
                        Inl e \<Rightarrow> Inl e
                      | Inr s1 \<Rightarrow>
                          (case tp_call_value ext s1 ethAmount of
                             (success, s2) \<Rightarrow>
                               if \<not> success then Inl (Error ''ETH transfer failed'')
                               else Inr s2))))"

definition updateRates ::
  "tp_state \<Rightarrow> address \<Rightarrow> uint256 \<Rightarrow> uint256 \<Rightarrow> error + tp_state" where
  "updateRates s sender newBuyRate newSellRate =
     (if \<not> (sender = tp_owner s) then Inl (Error ''Only owner can update rates'')
      else Inr (s\<lparr>buyRate := newBuyRate, sellRate := newSellRate\<rparr>))"

definition TokenPool_receive :: "tp_state \<Rightarrow> address \<Rightarrow> uint256 \<Rightarrow> error + tp_state" where
  "TokenPool_receive s sender v = Inr (s\<lparr>tp_this_balance := tp_this_balance s + unat v\<rparr>)"

definition addAdmin :: "tp_state \<Rightarrow> address \<Rightarrow> address \<Rightarrow> error + tp_state" where
  "addAdmin s sender newAdmin =
     (if \<not> admins s sender then Inl (Error ''Admin access required'')
      else Inr (s\<lparr>admins := (admins s)(newAdmin := True)\<rparr>))"

definition adminMint ::
  "tp_state \<Rightarrow> address \<Rightarrow> address \<Rightarrow> uint256 \<Rightarrow> error + tp_state" where
  "adminMint s sender to amount =
     (if \<not> admins s sender then Inl (Error ''Admin access required'')
      else TokenBase_mint s to amount)"

definition adminBurn ::
  "tp_state \<Rightarrow> address \<Rightarrow> address \<Rightarrow> uint256 \<Rightarrow> error + tp_state" where
  "adminBurn s sender from amount =
     (if \<not> admins s sender then Inl (Error ''Admin access required'')
      else TokenBase_burn s from amount)"

definition emergencyWithdraw ::
  "tp_effect \<Rightarrow> tp_state \<Rightarrow> address \<Rightarrow> uint256 \<Rightarrow> error + tp_state" where
  "emergencyWithdraw ext s sender amount =
     (if \<not> admins s sender then Inl (Error ''Admin access required'')
      else if \<not> (unat amount \<le> tp_this_balance s) then Inl (Error ''Insufficient contract balance'')
      else (case tp_call_value ext s amount of
              (success, s1) \<Rightarrow>
                if \<not> success then Inl (Error ''ETH transfer failed'') else Inr s1))"

datatype tp_call =
    Transfer address address uint256
  | BuyTokens address uint256
  | SellTokens address uint256 "tp_call list" bool
  | UpdateRates address uint256 uint256
  | ReceiveEther address uint256
  | AddAdmin address address
  | AdminMint address address uint256
  | AdminBurn address address uint256
  | EmergencyWithdraw address uint256 "tp_call list" bool

fun tp_exec :: "tp_state \<Rightarrow> tp_call \<Rightarrow> error + tp_state"
  and tp_run :: "tp_state \<Rightarrow> tp_call list \<Rightarrow> tp_state" where
  "tp_exec s (Transfer sender to amount) = TokenPool_transfer s sender to amount"
| "tp_exec s (BuyTokens sender v) = buyTokens s sender v"
| "tp_exec s (SellTokens sender tokenAmount cs ok) =
     sellTokens (\<lambda>s'. (ok, tp_run s' cs)) s sender tokenAmount"
| "tp_exec s (UpdateRates sender newBuyRate newSellRate) =
     updateRates s sender newBuyRate newSellRate"
| "tp_exec s (ReceiveEther sender v) = TokenPool_receive s sender v"
| "tp_exec s (AddAdmin sender newAdmin) = addAdmin s sender newAdmin"
| "tp_exec s (AdminMint sender to amount) = adminMint s sender to amount"
| "tp_exec s (AdminBurn sender from amount) = adminBurn s sender from amount"
| "tp_exec s (EmergencyWithdraw sender amount cs ok) =
     emergencyWithdraw (\<lambda>s'. (ok, tp_run s' cs)) s sender amount"
| "tp_run s [] = s"
| "tp_run s (c # cs) = tp_run (commit s (tp_exec s c)) cs"

text \<open>
Invariant I1 for this ledger: the supply query equals the sum of all balances.
\<close>

definition conserved :: "tp_state \<Rightarrow> bool" where
  "conserved s \<longleftrightarrow> unat (TokenPool_totalSupply s) = sum_balances (tb_balances s)"

text \<open>
  Sequences of the three TokenBase operations, run next to a ledger of unbounded integers.
  \<open>spec_effect\<close> follows the words of the specification for the effect of an operation
  (\<^verbatim>\<open>balances[caller] -= amount; balances[to] += amount\<close> and so on) with no check at all;
  \<open>tb_run\<close> applies it for exactly the operations the code accepts.
\<close>

datatype tb_op = Op_transfer address address uint256 | Op_mint address uint256
  | Op_burn address uint256

fun tb_apply :: "tp_state \<Rightarrow> tb_op \<Rightarrow> error + tp_state" where
  "tb_apply s (Op_transfer from to amount) = TokenBase_transfer s from to amount"
| "tb_apply s (Op_mint account amount) = TokenBase_mint s account amount"
| "tb_apply s (Op_burn account amount) = TokenBase_burn s account amount"

fun spec_effect :: "(address \<Rightarrow> int) \<Rightarrow> tb_op \<Rightarrow> (address \<Rightarrow> int)" where
  "spec_effect b (Op_transfer from to amount) =
     (let b1 = b(from := b from - uint amount) in b1(to := b1 to + uint amount))"
| "spec_effect b (Op_mint account amount) = b(account := b account + uint amount)"
| "spec_effect b (Op_burn account amount) = b(account := b account - uint amount)"

fun tb_run :: "tp_state \<Rightarrow> (address \<Rightarrow> int) \<Rightarrow> tb_op list \<Rightarrow> tp_state \<times> (address \<Rightarrow> int)" where
  "tb_run s b [] = (s, b)"
| "tb_run s b (x # xs) =
     (case tb_apply s x of
        Inl e \<Rightarrow> tb_run s b xs
      | Inr s' \<Rightarrow> tb_run s' (spec_effect b x) xs)"


section \<open>SecurityPitfalls\<close>

text \<open>
  The contract holds \<^verbatim>\<open>owner\<close>, \<^verbatim>\<open>balances\<close> and the private flag \<^verbatim>\<open>locked\<close>.  Two more
  fields make the effects of its statements visible: \<open>this_balance\<close> is
  \<^verbatim>\<open>address(this).balance\<close>, the ether the contract holds (a natural number: the ether in
  existence is far below \<open>2 ^ 256\<close>), and \<open>events\<close> is the log written by \<^verbatim>\<open>emit\<close>.
  Both are rolled back by a revert, like storage.

  \<^verbatim>\<open>msg.sender.call{value: _amount}("")\<close> hands control to the code of the caller, which may
  call back into the contract before it returns.  The withdraw functions therefore take the
  external effect as a parameter: a function from the contract state at the moment of the call
  to the success flag, the contract state when the callee returns, and the trace of what the
  callee saw.  \<open>call_value\<close> is the EVM rule for a call with value: it fails without
  running the callee when the contract holds less than the value, and a failing callee leaves
  no change behind.  The modifier \<^verbatim>\<open>noReentrancy\<close> is written out in \<open>safeWithdraw\<close>:
  the \<^verbatim>\<open>require\<close> and \<^verbatim>\<open>locked = true\<close> before the body, \<^verbatim>\<open>locked = false\<close> after it.

  A \<open>call\<close> is one message call into the contract: the function, \<^verbatim>\<open>msg.sender\<close>, the
  arguments and, for the two withdraw functions, what the code of \<^verbatim>\<open>msg.sender\<close> does when
  the value arrives: the calls it makes back into the contract, in order (each with its own
  nested behaviour), and whether it then reports success.  \<open>exec\<close> runs one call, \<open>run\<close> a
  sequence of calls in which a reverting call changes nothing; the trace lists every call made
  inside a callback with its outcome, and survives a revert (the callee has seen it).
  \<^verbatim>\<open>unsafeTransfer\<close>, \<^verbatim>\<open>unsafeAdd\<close>, \<^verbatim>\<open>safeAdd\<close> and \<^verbatim>\<open>unsafeRandom\<close> neither read nor write
  the balances, the owner or the lock and are left out.
\<close>

datatype sp_event = Deposit_ev address uint256 | Withdrawal_ev address uint256

record sp_state =
  owner :: address
  balances :: "address \<Rightarrow> uint256"
  locked :: bool
  this_balance :: nat
  events :: "sp_event list"

datatype call =
    Deposit address uint256
  | Receive address uint256
  | UnsafeWithdraw address uint256 "call list" bool
  | SafeWithdraw address uint256 "call list" bool
  | SafeTransfer address address uint256
  | UnsafeChangeOwner address address
  | SafeChangeOwner address address
  | Get_owner
  | Get_balances address
  | GetContractBalance

datatype outcome = Reverted error | Returned | Returned_uint uint256 | Returned_address address

type_synonym trace = "(call \<times> outcome) list"

type_synonym effect = "sp_state \<Rightarrow> bool \<times> sp_state \<times> trace"

definition constructor :: "address \<Rightarrow> sp_state" where
  "constructor sender =
     \<lparr>owner = sender, balances = (\<lambda>_. 0), locked = False, this_balance = 0, events = []\<rparr>"

definition call_value :: "effect \<Rightarrow> sp_state \<Rightarrow> uint256 \<Rightarrow> bool \<times> sp_state \<times> trace" where
  "call_value ext s v =
     (if this_balance s < unat v then (False, s, [])
      else case ext (s\<lparr>this_balance := this_balance s - unat v\<rparr>) of
             (ok, s', tr) \<Rightarrow> if ok then (True, s', tr) else (False, s, tr))"

definition receive_value :: "sp_state \<Rightarrow> uint256 \<Rightarrow> sp_state" where
  "receive_value s v = s\<lparr>this_balance := this_balance s + unat v\<rparr>"

definition deposit :: "sp_state \<Rightarrow> address \<Rightarrow> uint256 \<Rightarrow> error + sp_state" where
  "deposit s sender v =
     (let s0 = receive_value s v in
      case checked_add (balances s0 sender) v of
        Inl e \<Rightarrow> Inl e
      | Inr b \<Rightarrow>
          (let s1 = s0\<lparr>balances := (balances s0)(sender := b)\<rparr>
           in Inr (s1\<lparr>events := events s1 @ [Deposit_ev sender v]\<rparr>)))"

definition unsafeWithdraw ::
  "effect \<Rightarrow> sp_state \<Rightarrow> address \<Rightarrow> uint256 \<Rightarrow> (error + sp_state) \<times> trace" where
  "unsafeWithdraw ext s sender amount =
     (if \<not> (balances s sender \<ge> amount) then (Inl (Error ''Insufficient balance''), [])
      else case call_value ext s amount of
        (success, s1, tr) \<Rightarrow>
          if \<not> success then (Inl (Error ''Transfer failed''), tr)
          else (case checked_sub (balances s1 sender) amount of
                  Inl e \<Rightarrow> (Inl e, tr)
                | Inr b \<Rightarrow>
                    (let s2 = s1\<lparr>balances := (balances s1)(sender := b)\<rparr>
                     in (Inr (s2\<lparr>events := events s2 @ [Withdrawal_ev sender amount]\<rparr>), tr))))"

definition safeWithdraw ::
  "effect \<Rightarrow> sp_state \<Rightarrow> address \<Rightarrow> uint256 \<Rightarrow> (error + sp_state) \<times> trace" where
  "safeWithdraw ext s sender amount =
     (if \<not> (\<not> locked s) then (Inl (Error ''Reentrant call detected''), [])
      else
        let s0 = s\<lparr>locked := True\<rparr> in
        if \<not> (balances s0 sender \<ge> amount) then (Inl (Error ''Insufficient balance''), [])
        else (case checked_sub (balances s0 sender) amount of
                Inl e \<Rightarrow> (Inl e, [])
              | Inr b \<Rightarrow>
                  (let s1 = s0\<lparr>balances := (balances s0)(sender := b)\<rparr> in
                   case call_value ext s1 amount of
                     (success, s2, tr) \<Rightarrow>
                       if \<not> success then (Inl (Error ''Transfer failed''), tr)
                       else (let s3 = s2\<lparr>events := events s2 @ [Withdrawal_ev sender amount]\<rparr>
                             in (Inr (s3\<lparr>locked := False\<rparr>), tr)))))"

definition safeTransfer :: "sp_state \<Rightarrow> address \<Rightarrow> address \<Rightarrow> uint256 \<Rightarrow> error + sp_state" where
  "safeTransfer s sender to amount =
     (if \<not> (sender = owner s) then Inl (Error ''Not authorized'') else Inr s)"

definition unsafeChangeOwner :: "sp_state \<Rightarrow> address \<Rightarrow> address \<Rightarrow> error + sp_state" where
  "unsafeChangeOwner s sender newOwner = Inr (s\<lparr>owner := newOwner\<rparr>)"

definition safeChangeOwner :: "sp_state \<Rightarrow> address \<Rightarrow> address \<Rightarrow> error + sp_state" where
  "safeChangeOwner s sender newOwner =
     (if \<not> (sender = owner s) then Inl (Error ''Not the owner'')
      else Inr (s\<lparr>owner := newOwner\<rparr>))"

definition returned :: "sp_state \<Rightarrow> call \<Rightarrow> outcome" where
  "returned s c =
     (case c of
        Get_owner \<Rightarrow> Returned_address (owner s)
      | Get_balances a \<Rightarrow> Returned_uint (balances s a)
      | GetContractBalance \<Rightarrow> Returned_uint (of_nat (this_balance s))
      | _ \<Rightarrow> Returned)"

fun exec :: "sp_state \<Rightarrow> call \<Rightarrow> (error + sp_state) \<times> trace"
  and run :: "sp_state \<Rightarrow> call list \<Rightarrow> sp_state \<times> trace" where
  "exec s (Deposit sender v) = (deposit s sender v, [])"
| "exec s (Receive sender v) = (deposit s sender v, [])"
| "exec s (UnsafeWithdraw sender amount cs ok) =
     unsafeWithdraw (\<lambda>s'. case run s' cs of (s'', tr) \<Rightarrow> (ok, s'', tr)) s sender amount"
| "exec s (SafeWithdraw sender amount cs ok) =
     safeWithdraw (\<lambda>s'. case run s' cs of (s'', tr) \<Rightarrow> (ok, s'', tr)) s sender amount"
| "exec s (SafeTransfer sender to amount) = (safeTransfer s sender to amount, [])"
| "exec s (UnsafeChangeOwner sender newOwner) = (unsafeChangeOwner s sender newOwner, [])"
| "exec s (SafeChangeOwner sender newOwner) = (safeChangeOwner s sender newOwner, [])"
| "exec s Get_owner = (Inr s, [])"
| "exec s (Get_balances a) = (Inr s, [])"
| "exec s GetContractBalance = (Inr s, [])"
| "run s [] = (s, [])"
| "run s (c # cs) =
     (case exec s c of
        (r, tr) \<Rightarrow>
          (case run (commit s r) cs of
             (s', tr') \<Rightarrow>
               (s', tr @ (c, case r of Inl e \<Rightarrow> Reverted e | Inr _ \<Rightarrow> returned s c) # tr')))"

text \<open>
  What a trace says about nested calls of \<^verbatim>\<open>safeWithdraw\<close>, and the bookkeeping read off the
  event log: the amounts of the \<^verbatim>\<open>Withdrawal\<close> and \<^verbatim>\<open>Deposit\<close> events of one user, and of
  all users.  A \<^verbatim>\<open>Withdrawal(user, amount)\<close> event is written by a withdraw call exactly when
  its transfer of \<open>amount\<close> to \<open>user\<close> succeeded and the call did not revert, so
  \<open>withdrawn\<close> is the ether paid out to the user.  \<open>credit\<close> and \<open>reserve\<close> are the two
  quantities every successful call leaves unchanged.
\<close>

fun is_SafeWithdraw :: "call \<Rightarrow> bool" where
  "is_SafeWithdraw (SafeWithdraw sender amount cs ok) = True"
| "is_SafeWithdraw c = False"

definition nested_safeWithdraw_rejected :: "trace \<Rightarrow> bool" where
  "nested_safeWithdraw_rejected tr =
     list_all (\<lambda>(c, out). is_SafeWithdraw c \<longrightarrow> out = Reverted (Error ''Reentrant call detected'')) tr"

fun withdrawn :: "sp_event list \<Rightarrow> address \<Rightarrow> nat" where
  "withdrawn [] a = 0"
| "withdrawn (Withdrawal_ev user amount # evs) a =
     (if user = a then unat amount else 0) + withdrawn evs a"
| "withdrawn (Deposit_ev user amount # evs) a = withdrawn evs a"

fun deposited :: "sp_event list \<Rightarrow> address \<Rightarrow> nat" where
  "deposited [] a = 0"
| "deposited (Deposit_ev user amount # evs) a =
     (if user = a then unat amount else 0) + deposited evs a"
| "deposited (Withdrawal_ev user amount # evs) a = deposited evs a"

fun total_withdrawn :: "sp_event list \<Rightarrow> nat" where
  "total_withdrawn [] = 0"
| "total_withdrawn (Withdrawal_ev user amount # evs) = unat amount + total_withdrawn evs"
| "total_withdrawn (Deposit_ev user amount # evs) = total_withdrawn evs"

fun total_deposited :: "sp_event list \<Rightarrow> nat" where
  "total_deposited [] = 0"
| "total_deposited (Deposit_ev user amount # evs) = unat amount + total_deposited evs"
| "total_deposited (Withdrawal_ev user amount # evs) = total_deposited evs"

definition credit :: "sp_state \<Rightarrow> address \<Rightarrow> int" where
  "credit s a = uint (balances s a) + int (withdrawn (events s) a)
                  - int (deposited (events s) a)"

definition reserve :: "sp_state \<Rightarrow> int" where
  "reserve s = int (this_balance s) + int (total_withdrawn (events s))
                  - int (total_deposited (events s))"


section \<open>Example states\<close>

text \<open>
  States reached by concrete calls, used to run the theorems on concrete inputs:
  a SecurityPitfalls contract deployed by account 7 after deposits of 10 by account 1 and 20 by
  account 2; a Coin after \<^verbatim>\<open>mint(1, 100)\<close> by the minter 7 and \<^verbatim>\<open>send(2, 30)\<close> by account 1;
  an AdminExtension deployed by 7 with no initial supply, and the same after a mint of 100 to
  account 1 and a transfer of 30 to account 2; a SimpleCoin deployed by 7 with no initial
  supply, and the same after the owner minted 100 to account 1.
\<close>

definition funded :: sp_state where
  "funded = fst (run (constructor 7) [Deposit 1 10, Deposit 2 20])"

definition coin_demo :: coin_state where
  "coin_demo =
     commit (commit (Coin_constructor 7) (Coin_mint (Coin_constructor 7) 7 1 100))
       (Coin_send (commit (Coin_constructor 7) (Coin_mint (Coin_constructor 7) 7 1 100)) 1 2 30)"

definition pool_fresh :: tp_state where
  "pool_fresh =
     \<lparr>tb_balances = (\<lambda>_. 0), tb_totalSupply = 0, tp_name = ''Pool'', tp_symbol = ''PL'',
      tp_owner = 7, buyRate = 2, sellRate = 2, admins = (\<lambda>_. False)(7 := True),
      tp_this_balance = 0,
      tp_events = [Transfer_ev 0 7 0]\<rparr>"

definition pool_demo :: tp_state where
  "pool_demo = tp_run pool_fresh [AdminMint 7 1 100, Transfer 1 2 30]"

definition coin_fresh :: sc_state where
  "coin_fresh =
     \<lparr>sc_owner = 7, sc_name = ''Simple'', sc_symbol = ''SC'', decimals = 18,
      balanceOf = (\<lambda>_. 0), sc_events = [Sc_Mint 7 0]\<rparr>"

definition coin_minted :: sc_state where
  "coin_minted =
     \<lparr>sc_owner = 7, sc_name = ''Simple'', sc_symbol = ''SC'', decimals = 18,
      balanceOf = (\<lambda>_. 0)(1 := 100),
      sc_events = [Sc_Mint 7 0, Sc_Mint 1 100, Sc_Transfer 0 1 100]\<rparr>"


section \<open>Arithmetic and evaluation lemmas\<close>

lemma uint_checked_add:
  "unat (a::uint256) + unat b < 2 ^ 256 \<Longrightarrow> uint (a + b) = uint a + uint b"
proof -
  assume "unat a + unat b < 2 ^ 256"
  then have "unat (a + b) = unat a + unat b" using unat_add_lem[of a b] by simp
  then have "int (unat (a + b)) = int (unat a) + int (unat b)" by (simp only: of_nat_add)
  then show ?thesis by simp
qed

lemma uint_checked_sub: "(b::uint256) \<le> a \<Longrightarrow> uint (a - b) = uint a - uint b"
  by (simp add: uint_sub_lem word_le_def)

lemma unat_checked_add:
  "unat (a::uint256) + unat b < 2 ^ 256 \<Longrightarrow> unat (a + b) = unat a + unat b"
  using unat_add_lem[of a b] by simp

lemma unat_checked_sub:
  "(b::uint256) \<le> a \<Longrightarrow> unat (a - b) + unat b = unat a"
  by (simp add: unat_sub word_le_nat_alt)

lemma sum_balances_split: "sum_balances b = unat (b a) + (\<Sum>x\<in>UNIV - {a}. unat (b x))"
  unfolding sum_balances_def by (rule sum.remove) simp_all

lemma sum_balances_upd:
  "sum_balances (b(a := v)) + unat (b a) = sum_balances b + unat v"
proof -
  have "(\<Sum>x\<in>UNIV - {a}. unat ((b(a := v)) x)) = (\<Sum>x\<in>UNIV - {a}. unat (b x))"
    by (rule sum.cong) simp_all
  then show ?thesis
    using sum_balances_split[of b a] sum_balances_split[of "b(a := v)" a] by simp
qed

lemma sum_balances_zero: "sum_balances (\<lambda>_. 0) = 0"
  by (simp add: sum_balances_def)

lemma sum_balances_upd_eval:
  "sum_balances (b(a := v)) = sum_balances b - unat (b a) + unat v"
  using sum_balances_upd[of b a v] sum_balances_split[of b a] by simp

lemmas sp_defs = deposit_def receive_value_def unsafeWithdraw_def safeWithdraw_def call_value_def
  safeTransfer_def unsafeChangeOwner_def safeChangeOwner_def checked_add_def checked_sub_def

lemmas eval_defs = funded_def constructor_def sp_defs commit_def returned_def Let_def
  nested_safeWithdraw_rejected_def

lemmas coin_defs = Coin_constructor_def Coin_mint_def Coin_send_def checked_add_def
  checked_sub_def commit_def Let_def

lemmas tp_defs = TokenBase_transfer_def TokenBase_mint_def TokenBase_burn_def isValidAmount_def
  TokenPool_constructor_def AdminExtension_constructor_def TokenPool_balanceOf_def
  TokenPool_totalSupply_def TokenPool_transfer_def tp_call_value_def buyTokens_def
  sellTokens_def updateRates_def TokenPool_receive_def addAdmin_def adminMint_def
  adminBurn_def emergencyWithdraw_def checked_add_def checked_sub_def checked_mul_def
  checked_div_def commit_def Let_def

lemma coin_demo_balances: "coin_balances coin_demo 1 = 70 \<and> coin_balances coin_demo 2 = 30
  \<and> minter coin_demo = 7"
  by (simp add: coin_demo_def coin_defs)


section \<open>Coin: rejected and accepted transfers\<close>

text \<open>
  Claim C5 (transfer with insufficient balance).  When \<^verbatim>\<open>balances[msg.sender]\<close> is less than
  the amount, \<^verbatim>\<open>Coin.send\<close> reverts with \<^verbatim>\<open>InsufficientBalance\<close> carrying the requested amount
  and the available balance, for every sender, receiver and amount.  The revert leaves the
  whole state as it was: the minter, every balance and therefore the sum of all balances
  (Coin stores no separate supply).
\<close>

theorem Coin_send_insufficient_balance:
  assumes "coin_balances s sender < amount"
  shows "Coin_send s sender receiver amount =
           Inl (InsufficientBalance amount (coin_balances s sender))
     \<and> commit s (Coin_send s sender receiver amount) = s
     \<and> sum_balances (coin_balances (commit s (Coin_send s sender receiver amount)))
         = sum_balances (coin_balances s)"
  using assms by (simp add: Coin_send_def commit_def)

theorem Coin_send_insufficient_balance_witness:
  "coin_balances coin_demo 1 < 1000
   \<and> Coin_send coin_demo 1 2 1000 = Inl (InsufficientBalance 1000 70)
   \<and> coin_balances (commit coin_demo (Coin_send coin_demo 1 2 1000)) 1 = 70
   \<and> coin_balances (commit coin_demo (Coin_send coin_demo 1 2 1000)) 2 = 30"
  using Coin_send_insufficient_balance [of coin_demo 1 1000 2] coin_demo_balances
  by (simp add: commit_def)

text \<open>
  Claim C8 (a transfer to oneself).  \<^verbatim>\<open>Coin.send\<close> with the sender as receiver and an amount
  within the sender's balance succeeds; the state it returns differs from the old one only in
  the event log, which gains \<^verbatim>\<open>Sent(sender, sender, amount)\<close>, so every balance is unchanged.
  With an amount above the balance it reverts with \<^verbatim>\<open>InsufficientBalance\<close>, as any other
  transfer does.
\<close>

theorem Coin_send_to_self:
  "(amount \<le> coin_balances s sender \<longrightarrow>
      Coin_send s sender sender amount =
        Inr (s\<lparr>coin_events := coin_events s @ [Sent sender sender amount]\<rparr>))
   \<and> (coin_balances s sender < amount \<longrightarrow>
        Coin_send s sender sender amount =
          Inl (InsufficientBalance amount (coin_balances s sender)))"
proof -
  have ok: "Coin_send s sender sender amount =
        Inr (s\<lparr>coin_events := coin_events s @ [Sent sender sender amount]\<rparr>)"
    if le: "amount \<le> coin_balances s sender"
  proof -
    have "unat (coin_balances s sender - amount) + unat amount = unat (coin_balances s sender)"
      using le by (simp add: unat_sub word_le_nat_alt)
    moreover have "unat (coin_balances s sender) < 2 ^ 256"
      using unsigned_less[of "coin_balances s sender", where 'a = nat] by simp
    ultimately have "unat (coin_balances s sender - amount) + unat amount < 2 ^ 256" by simp
    moreover have "\<not> coin_balances s sender < amount" using le by simp
    ultimately show ?thesis
      by (simp add: Coin_send_def checked_sub_def checked_add_def Let_def le)
  qed
  have bad: "Coin_send s sender sender amount =
          Inl (InsufficientBalance amount (coin_balances s sender))"
    if "coin_balances s sender < amount"
    using that by (simp add: Coin_send_def)
  from ok bad show ?thesis by blast
qed

theorem Coin_send_to_self_witness:
  "(30::uint256) \<le> coin_balances coin_demo 1
   \<and> Coin_send coin_demo 1 1 30 = Inr (coin_demo\<lparr>coin_events := coin_events coin_demo @ [Sent 1 1 30]\<rparr>)
   \<and> coin_balances coin_demo 1 < 71
   \<and> Coin_send coin_demo 1 1 71 = Inl (InsufficientBalance 71 70)"
  using Coin_send_to_self [of 30 coin_demo 1] Coin_send_to_self [of 71 coin_demo 1]
    coin_demo_balances
  by simp


section \<open>TokenBase: conservation and non-negative balances\<close>

lemma conserved_mint:
  assumes "conserved s" and "TokenBase_mint s account amount = Inr s'"
  shows "conserved s'"
proof -
  from assms(2) have
    t: "unat (tb_totalSupply s) + unat amount < 2 ^ 256" and
    b: "unat (tb_balances s account) + unat amount < 2 ^ 256" and
    s': "tb_totalSupply s' = tb_totalSupply s + amount"
        "tb_balances s' = (tb_balances s)(account := tb_balances s account + amount)"
    by (auto simp: TokenBase_mint_def checked_add_def Let_def split: if_splits)
  from sum_balances_upd[of "tb_balances s" account "tb_balances s account + amount"]
  have "sum_balances (tb_balances s') = sum_balances (tb_balances s) + unat amount"
    using unat_checked_add[OF b] s' by simp
  with assms(1) unat_checked_add[OF t] s' show ?thesis
    by (simp add: conserved_def TokenPool_totalSupply_def)
qed

lemma conserved_burn:
  assumes "conserved s" and "TokenBase_burn s account amount = Inr s'"
  shows "conserved s'"
proof -
  from assms(2) have
    b: "amount \<le> tb_balances s account" and
    t: "amount \<le> tb_totalSupply s" and
    s': "tb_totalSupply s' = tb_totalSupply s - amount"
        "tb_balances s' = (tb_balances s)(account := tb_balances s account - amount)"
    by (auto simp: TokenBase_burn_def checked_sub_def Let_def split: if_splits)
  from sum_balances_upd[of "tb_balances s" account "tb_balances s account - amount"]
  have "sum_balances (tb_balances s') + unat amount = sum_balances (tb_balances s)"
    using unat_checked_sub[OF b] s' by simp
  with assms(1) unat_checked_sub[OF t] s' show ?thesis
    by (simp add: conserved_def TokenPool_totalSupply_def)
qed

lemma conserved_transfer:
  assumes "conserved s" and "TokenBase_transfer s from to amount = Inr s'"
  shows "conserved s'"
proof -
  let ?b1 = "(tb_balances s)(from := tb_balances s from - amount)"
  from assms(2) have
    b: "amount \<le> tb_balances s from" and
    a: "unat (?b1 to) + unat amount < 2 ^ 256" and
    s': "tb_totalSupply s' = tb_totalSupply s"
        "tb_balances s' = ?b1(to := ?b1 to + amount)"
    by (auto simp: TokenBase_transfer_def checked_sub_def checked_add_def Let_def
             split: if_splits)
  have "sum_balances ?b1 + unat amount = sum_balances (tb_balances s)"
    using sum_balances_upd[of "tb_balances s" "from" "tb_balances s from - amount"]
      unat_checked_sub[OF b] by simp
  moreover have "sum_balances (tb_balances s') = sum_balances ?b1 + unat amount"
    using sum_balances_upd[of ?b1 to "?b1 to + amount"] unat_checked_add[OF a] s'(2) by simp
  ultimately show ?thesis
    using assms(1) s'(1) by (simp add: conserved_def TokenPool_totalSupply_def)
qed

lemma conserved_other [simp]:
  "conserved (s\<lparr>tp_this_balance := n\<rparr>) = conserved s"
  "conserved (s\<lparr>admins := ad\<rparr>) = conserved s"
  "conserved (s\<lparr>buyRate := r\<rparr>) = conserved s"
  "conserved (s\<lparr>sellRate := r\<rparr>) = conserved s"
  by (simp_all add: conserved_def TokenPool_totalSupply_def)

lemma conserved_preserved:
  "conserved s \<longrightarrow> (\<forall>s'. tp_exec s c = Inr s' \<longrightarrow> conserved s')"
  "conserved s \<longrightarrow> conserved (tp_run s cs)"
proof (induction s c and s cs rule: tp_exec_tp_run.induct)
  case (1 s sender to amount)
  then show ?case by (auto simp: TokenPool_transfer_def dest: conserved_transfer)
next
  case (2 s sender v)
  then show ?case
    by (auto simp: buyTokens_def Let_def split: if_splits sum.splits
             dest!: conserved_mint[rotated])
next
  case (3 s sender tokenAmount cs ok)
  then show ?case
    by (auto simp: sellTokens_def tp_call_value_def Let_def split: if_splits sum.splits
             dest!: conserved_burn[rotated])
next
  case (7 s sender to amount)
  then show ?case by (auto simp: adminMint_def split: if_splits dest: conserved_mint)
next
  case (8 s sender "from" amount)
  then show ?case by (auto simp: adminBurn_def split: if_splits dest: conserved_burn)
next
  case (9 s sender amount cs ok)
  then show ?case
    by (auto simp: emergencyWithdraw_def tp_call_value_def split: if_splits)
next
  case (11 s c cs)
  then show ?case by (cases "tp_exec s c") (auto simp: commit_def)
qed (auto simp: updateRates_def TokenPool_receive_def addAdmin_def split: if_splits)

text \<open>
  Claim C1 (conservation, invariant I1), for the ledger that tracks its supply.  After a
  successful deployment of TokenPool or of AdminExtension, and after any sequence of calls of
  its functions (transfers, \<^verbatim>\<open>buyTokens\<close>, \<^verbatim>\<open>sellTokens\<close>, the admin mint and burn, the calls
  that move only ether or settings), whatever the receivers of ether do while they are called
  and whichever calls revert, \<^verbatim>\<open>totalSupply()\<close> equals the sum of all balances.  As the
  sequence is arbitrary, this holds after each call.
\<close>

theorem TokenPool_conservation:
  assumes "TokenPool_constructor sender name' symbol' initialSupply buyRate' sellRate' = Inr s0
           \<or> AdminExtension_constructor sender name' symbol' initialSupply buyRate' sellRate' = Inr s0"
  shows "unat (TokenPool_totalSupply (tp_run s0 cs)) = sum_balances (tb_balances (tp_run s0 cs))"
proof -
  let ?blank = "\<lparr>tb_balances = (\<lambda>_. 0), tb_totalSupply = 0, tp_name = name',
        tp_symbol = symbol', tp_owner = sender, buyRate = buyRate', sellRate = sellRate',
        admins = (\<lambda>_. False), tp_this_balance = 0, tp_events = []\<rparr>"
  have blank: "conserved ?blank"
    by (simp add: conserved_def TokenPool_totalSupply_def sum_balances_zero)
  have pool: "conserved s1"
    if "TokenPool_constructor sender name' symbol' initialSupply buyRate' sellRate' = Inr s1"
    for s1
    using that conserved_mint[OF blank] by (simp add: TokenPool_constructor_def)
  from assms have "conserved s0"
  proof
    assume "TokenPool_constructor sender name' symbol' initialSupply buyRate' sellRate' = Inr s0"
    then show ?thesis by (rule pool)
  next
    assume "AdminExtension_constructor sender name' symbol' initialSupply buyRate' sellRate' = Inr s0"
    then show ?thesis
      using pool by (auto simp: AdminExtension_constructor_def split: sum.splits)
  qed
  then have "conserved (tp_run s0 cs)" using conserved_preserved(2)[of s0 cs] by simp
  then show ?thesis by (simp add: conserved_def)
qed

theorem TokenPool_conservation_witness:
  "AdminExtension_constructor 7 ''Pool'' ''PL'' 0 2 2 = Inr pool_fresh
   \<and> unat (TokenPool_totalSupply
        (tp_run pool_fresh [AdminMint 7 1 100, Transfer 1 2 30, BuyTokens 3 50,
           SellTokens 1 20 [Transfer 1 3 10, SellTokens 1 2 [] True] True, AdminBurn 7 2 10]))
     = sum_balances (tb_balances
        (tp_run pool_fresh [AdminMint 7 1 100, Transfer 1 2 30, BuyTokens 3 50,
           SellTokens 1 20 [Transfer 1 3 10, SellTokens 1 2 [] True] True, AdminBurn 7 2 10]))
   \<and> TokenPool_totalSupply (tp_run pool_fresh [AdminMint 7 1 100]) = 100
   \<and> TokenPool_balanceOf (tp_run pool_fresh [AdminMint 7 1 100]) 1 = 100
   \<and> TokenPool_balanceOf (tp_run pool_fresh [AdminMint 7 1 100, Transfer 1 2 30]) 1 = 70
   \<and> TokenPool_balanceOf (tp_run pool_fresh [AdminMint 7 1 100, Transfer 1 2 30]) 2 = 30
   \<and> TokenPool_totalSupply
        (tp_run pool_fresh [AdminMint 7 1 100, Transfer 1 2 30, BuyTokens 3 50,
           SellTokens 1 20 [Transfer 1 3 10, SellTokens 1 2 [] True] True, AdminBurn 7 2 10])
       = 168"
  using TokenPool_conservation [of 7 "''Pool''" "''PL''" 0 2 2 pool_fresh
     "[AdminMint 7 1 100, Transfer 1 2 30, BuyTokens 3 50,
       SellTokens 1 20 [Transfer 1 3 10, SellTokens 1 2 [] True] True, AdminBurn 7 2 10]"]
  by (simp add: pool_fresh_def tp_defs fun_upd_idem)

text \<open>
  Against claim C1 as stated: the property fails for SimpleCoin, whose \<^verbatim>\<open>totalSupply()\<close>
  returns the balance of the owner.  A SimpleCoin deployed by account 7 with initial supply 0
  has no balance at all; the
  owner then mints 100 to account 1, which succeeds; now \<^verbatim>\<open>totalSupply()\<close> returns 0 while the
  balances sum to 100.
\<close>

theorem SimpleCoin_totalSupply_counterexample:
  "SimpleCoin_constructor 7 0 ''Simple'' ''SC'' = Inr coin_fresh
   \<and> SimpleCoin_mint coin_fresh 7 1 100 = Inr coin_minted
   \<and> SimpleCoin_totalSupply coin_minted = 0
   \<and> sum_balances (balanceOf coin_minted) = 100"
  by (simp add: SimpleCoin_constructor_def SimpleCoin_mint_def SimpleCoin_totalSupply_def
        coin_fresh_def coin_minted_def checked_mul_def checked_add_def Let_def
        sum_balances_upd_eval sum_balances_zero fun_upd_idem)

lemma tb_apply_exact:
  assumes "tb_apply s x = Inr s'" and "\<forall>a. b a = uint (tb_balances s a)"
  shows "\<forall>a. spec_effect b x a = uint (tb_balances s' a)"
proof (cases x)
  case (Op_transfer "from" to amount)
  let ?b1 = "(tb_balances s)(from := tb_balances s from - amount)"
  from assms(1) Op_transfer have
    le: "amount \<le> tb_balances s from" and
    a: "unat (?b1 to) + unat amount < 2 ^ 256" and
    s': "tb_balances s' = ?b1(to := ?b1 to + amount)"
    by (auto simp: TokenBase_transfer_def checked_sub_def checked_add_def Let_def
             split: if_splits)
  show ?thesis
    using uint_checked_sub[OF le] uint_checked_add[OF a] assms(2)
    by (auto simp: Op_transfer s' Let_def)
next
  case (Op_mint account amount)
  from assms(1) Op_mint have
    a: "unat (tb_balances s account) + unat amount < 2 ^ 256" and
    s': "tb_balances s' = (tb_balances s)(account := tb_balances s account + amount)"
    by (auto simp: TokenBase_mint_def checked_add_def Let_def split: if_splits)
  show ?thesis
    using uint_checked_add[OF a] assms(2) by (auto simp: Op_mint s')
next
  case (Op_burn account amount)
  from assms(1) Op_burn have
    le: "amount \<le> tb_balances s account" and
    s': "tb_balances s' = (tb_balances s)(account := tb_balances s account - amount)"
    by (auto simp: TokenBase_burn_def checked_sub_def Let_def split: if_splits)
  show ?thesis
    using uint_checked_sub[OF le] assms(2) by (auto simp: Op_burn s')
qed

lemma tb_run_exact:
  "\<forall>a. b a = uint (tb_balances s a) \<Longrightarrow>
   \<forall>a. snd (tb_run s b xs) a = uint (tb_balances (fst (tb_run s b xs)) a)"
proof (induction xs arbitrary: s b)
  case Nil
  then show ?case by simp
next
  case (Cons x xs)
  show ?case
  proof (cases "tb_apply s x")
    case (Inl e)
    then show ?thesis using Cons.IH[OF Cons.prems] by simp
  next
    case (Inr s')
    then show ?thesis using Cons.IH[OF tb_apply_exact[OF Inr Cons.prems]] by simp
  qed
qed

text \<open>
  Claim C6 (non-negativity, invariant I2).  Start from any state of the TokenBase ledger and a
  ledger of unbounded integers that agrees with it, and run any sequence of transfers, mints
  and burns, applying to the integer ledger the unchecked arithmetic of exactly the operations
  the code accepts.  The two still agree afterwards, so no entry of the integer ledger is
  negative: no accepted operation took more than an account held.  A transfer or a burn of
  more than the account holds reverts (with \<^verbatim>\<open>"Insufficient balance"\<close> and
  \<^verbatim>\<open>"Burn amount exceeds balance"\<close> when no zero address is involved) and leaves the state as
  it was.
\<close>

theorem balances_never_negative:
  assumes "\<forall>a. ledger a = uint (tb_balances s a)"
  shows "(\<forall>a. snd (tb_run s ledger ops) a = uint (tb_balances (fst (tb_run s ledger ops)) a)
              \<and> 0 \<le> snd (tb_run s ledger ops) a)
     \<and> (tb_balances s from < amount \<longrightarrow>
          (\<exists>e. TokenBase_transfer s from to amount = Inl e)
          \<and> (\<exists>e. TokenBase_burn s from amount = Inl e)
          \<and> commit s (TokenBase_transfer s from to amount) = s
          \<and> commit s (TokenBase_burn s from amount) = s)
     \<and> (tb_balances s from < amount \<and> from \<noteq> 0 \<and> to \<noteq> 0 \<longrightarrow>
          TokenBase_transfer s from to amount = Inl (Error ''Insufficient balance'')
          \<and> TokenBase_burn s from amount = Inl (Error ''Burn amount exceeds balance''))"
proof -
  have exact: "\<forall>a. snd (tb_run s ledger ops) a = uint (tb_balances (fst (tb_run s ledger ops)) a)"
    using tb_run_exact[OF assms] .
  then have nonneg: "\<forall>a. 0 \<le> snd (tb_run s ledger ops) a" by simp
  have rejected: "(\<exists>e. TokenBase_transfer s from to amount = Inl e)
          \<and> (\<exists>e. TokenBase_burn s from amount = Inl e)
          \<and> commit s (TokenBase_transfer s from to amount) = s
          \<and> commit s (TokenBase_burn s from amount) = s"
    if "tb_balances s from < amount"
    using that by (auto simp: TokenBase_transfer_def TokenBase_burn_def commit_def)
  have reason: "TokenBase_transfer s from to amount = Inl (Error ''Insufficient balance'')
          \<and> TokenBase_burn s from amount = Inl (Error ''Burn amount exceeds balance'')"
    if "tb_balances s from < amount" "from \<noteq> 0" "to \<noteq> 0"
    using that by (auto simp: TokenBase_transfer_def TokenBase_burn_def)
  from exact nonneg rejected reason show ?thesis by blast
qed

theorem balances_never_negative_witness:
  "(\<forall>a. (\<lambda>a. uint (tb_balances pool_demo a)) a = uint (tb_balances pool_demo a))
   \<and> tb_balances pool_demo 1 = 70 \<and> tb_balances pool_demo 1 < 1000
   \<and> TokenBase_transfer pool_demo 1 2 1000 = Inl (Error ''Insufficient balance'')
   \<and> TokenBase_burn pool_demo 1 1000 = Inl (Error ''Burn amount exceeds balance'')
   \<and> snd (tb_run pool_demo (\<lambda>a. uint (tb_balances pool_demo a))
            [Op_transfer 1 2 1000, Op_burn 1 71, Op_transfer 1 2 70, Op_burn 2 100]) 1 = 0
   \<and> snd (tb_run pool_demo (\<lambda>a. uint (tb_balances pool_demo a))
            [Op_transfer 1 2 1000, Op_burn 1 71, Op_transfer 1 2 70, Op_burn 2 100]) 2 = 0
   \<and> tb_balances (fst (tb_run pool_demo (\<lambda>a. uint (tb_balances pool_demo a))
            [Op_transfer 1 2 1000, Op_burn 1 71, Op_transfer 1 2 70, Op_burn 2 100])) 2 = 0"
  using balances_never_negative [of "\<lambda>a. uint (tb_balances pool_demo a)" pool_demo
    "[Op_transfer 1 2 1000, Op_burn 1 71, Op_transfer 1 2 70, Op_burn 2 100]" 1 1000 2]
  by (simp add: pool_demo_def pool_fresh_def tp_defs fun_upd_idem)


section \<open>SecurityPitfalls: the lock, the order of effects and the owner\<close>

lemma locked_preserved:
  "(\<forall>s' tr. exec s c = (Inr s', tr) \<longrightarrow> locked s' = locked s)"
  "(\<forall>s' tr. run s cs = (s', tr) \<longrightarrow> locked s' = locked s)"
proof (induction s c and s cs rule: exec_run.induct)
  case (3 s sender amount cs ok)
  then show ?case
    by (auto simp: sp_defs Let_def split: if_splits prod.splits sum.splits)
next
  case (4 s sender amount cs ok)
  then show ?case
    by (auto simp: sp_defs Let_def split: if_splits prod.splits sum.splits)
next
  case (12 s c cs)
  show ?case
  proof (intro allI impI)
    fix s' tr assume run: "run s (c # cs) = (s', tr)"
    obtain r tr1 where e: "exec s c = (r, tr1)" by (cases "exec s c")
    obtain s2 tr2 where r2: "run (commit s r) cs = (s2, tr2)" by (cases "run (commit s r) cs")
    from run e r2 have "s' = s2" by simp
    moreover from "12.IH"(2)[of r tr1] e r2 have "locked s2 = locked (commit s r)" by simp
    moreover from "12.IH"(1) e have "locked (commit s r) = locked s"
      by (cases r) (auto simp: commit_def)
    ultimately show "locked s' = locked s" by simp
  qed
qed (auto simp: sp_defs Let_def split: if_splits sum.splits)

lemma locked_commit: "locked (commit s (fst (exec s c))) = locked s"
  using locked_preserved(1)[of s c]
  by (cases "exec s c"; cases "fst (exec s c)") (auto simp: commit_def)

lemma locked_run: "locked (fst (run s cs)) = locked s"
  using locked_preserved(2)[of s cs] by (cases "run s cs") auto

lemma rejected_append:
  "nested_safeWithdraw_rejected (xs @ ys) \<longleftrightarrow>
     nested_safeWithdraw_rejected xs \<and> nested_safeWithdraw_rejected ys"
  by (simp add: nested_safeWithdraw_rejected_def)

lemma locked_rejects_nested:
  "locked s \<longrightarrow> nested_safeWithdraw_rejected (snd (exec s c))"
  "locked s \<longrightarrow> nested_safeWithdraw_rejected (snd (run s cs))"
proof (induction s c and s cs rule: exec_run.induct)
  case (3 s sender amount cs ok)
  show ?case
  proof
    assume l: "locked s"
    have "nested_safeWithdraw_rejected
            (snd (run (s\<lparr>this_balance := this_balance s - unat amount\<rparr>) cs))"
      using 3 l by simp
    then show "nested_safeWithdraw_rejected (snd (exec s (UnsafeWithdraw sender amount cs ok)))"
      by (auto simp: sp_defs Let_def nested_safeWithdraw_rejected_def
               split: if_splits prod.splits sum.splits)
  qed
next
  case (4 s sender amount cs ok)
  then show ?case by (simp add: safeWithdraw_def nested_safeWithdraw_rejected_def)
next
  case (12 s c cs)
  show ?case
  proof
    assume l: "locked s"
    obtain r tr1 where e: "exec s c = (r, tr1)" by (cases "exec s c")
    obtain s2 tr2 where r2: "run (commit s r) cs = (s2, tr2)" by (cases "run (commit s r) cs")
    have a: "nested_safeWithdraw_rejected tr1" using "12.IH"(1) l e by simp
    have "locked (commit s r)" using locked_commit[of s c] e l by simp
    then have b: "nested_safeWithdraw_rejected tr2" using "12.IH"(2)[of r tr1] e r2 by simp
    have c: "is_SafeWithdraw c \<Longrightarrow> r = Inl (Error ''Reentrant call detected'')"
      using e l by (cases c) (auto simp: safeWithdraw_def)
    have "nested_safeWithdraw_rejected
            [(c, case r of Inl e \<Rightarrow> Reverted e | Inr _ \<Rightarrow> returned s c)]"
      using c by (auto simp: nested_safeWithdraw_rejected_def)
    with a b show "nested_safeWithdraw_rejected (snd (run s (c # cs)))"
      using e r2 rejected_append[of tr1] rejected_append[of "[x]" tr2 for x]
      by simp
  qed
qed (simp_all add: nested_safeWithdraw_rejected_def)

text \<open>
  Claim C2 (lock discipline and rejection of re-entrant calls, invariant I4).  Take any
  \<^verbatim>\<open>safeWithdraw\<close> that starts with the lock free, and any behaviour of the receiving code
  (any calls back into the contract, nested to any depth, and either report).  Then
  \<^item> every \<^verbatim>\<open>safeWithdraw\<close> made while the outer call is in flight reverts with
    \<^verbatim>\<open>"Reentrant call detected"\<close>;
  \<^item> the outer call returns: it succeeds when the balance and the contract's ether suffice
    and the receiver reports success (every other exit is a revert);
  \<^item> the lock is free in the state the outer call leaves, whether it succeeded or reverted;
  \<^item> the lock is free after any sequence of calls made from outside since deployment,
    hence before every such call;
  \<^item> a later, independent \<^verbatim>\<open>safeWithdraw\<close> within the balance and the contract's ether
    succeeds, debits the balance, pays out and logs the withdrawal.
\<close>

theorem safeWithdraw_lock_discipline:
  assumes "\<not> locked s"
  shows "nested_safeWithdraw_rejected (snd (exec s (SafeWithdraw sender amount cs ok)))
     \<and> (amount \<le> balances s sender \<and> unat amount \<le> this_balance s \<and> ok \<longrightarrow>
          (\<exists>s'. fst (exec s (SafeWithdraw sender amount cs ok)) = Inr s'))
     \<and> \<not> locked (commit s (fst (exec s (SafeWithdraw sender amount cs ok))))
     \<and> \<not> locked (fst (run (constructor deployer) txs))
     \<and> (let s1 = commit s (fst (exec s (SafeWithdraw sender amount cs ok))) in
          amount2 \<le> balances s1 user \<and> unat amount2 \<le> this_balance s1 \<longrightarrow>
          fst (exec s1 (SafeWithdraw user amount2 [] True)) =
            Inr (s1\<lparr>balances := (balances s1)(user := balances s1 user - amount2),
                    this_balance := this_balance s1 - unat amount2,
                    events := events s1 @ [Withdrawal_ev user amount2]\<rparr>))"
proof -
  let ?c = "SafeWithdraw sender amount cs ok"
  let ?s1 = "commit s (fst (exec s ?c))"
  have nested: "nested_safeWithdraw_rejected (snd (exec s ?c))"
  proof -
    let ?x = "s\<lparr>locked := True,
                 balances := (balances s)(sender := balances s sender - amount),
                 this_balance := this_balance s - unat amount\<rparr>"
    have "nested_safeWithdraw_rejected (snd (run ?x cs))"
      using locked_rejects_nested(2)[of ?x cs] by simp
    then show ?thesis
      using assms
      by (auto simp: safeWithdraw_def call_value_def checked_sub_def Let_def
            nested_safeWithdraw_rejected_def split: prod.splits)
  qed
  have completes: "\<exists>s'. fst (exec s ?c) = Inr s'"
    if "amount \<le> balances s sender" "unat amount \<le> this_balance s" "ok"
    using that assms
    by (auto simp: safeWithdraw_def call_value_def checked_sub_def Let_def split: prod.splits)
  have unlocked: "\<not> locked ?s1"
    using locked_commit[of s ?c] assms by simp
  have top: "\<not> locked (fst (run (constructor deployer) txs))"
    using locked_run[of "constructor deployer" txs] by (simp add: constructor_def)
  have later: "fst (exec ?s1 (SafeWithdraw user amount2 [] True)) =
            Inr (?s1\<lparr>balances := (balances ?s1)(user := balances ?s1 user - amount2),
                    this_balance := this_balance ?s1 - unat amount2,
                    events := events ?s1 @ [Withdrawal_ev user amount2]\<rparr>)"
    if "amount2 \<le> balances ?s1 user" "unat amount2 \<le> this_balance ?s1"
    using that unlocked
    by (simp add: safeWithdraw_def call_value_def checked_sub_def Let_def)
  from nested completes unlocked top later show ?thesis
    unfolding Let_def by blast
qed

theorem safeWithdraw_lock_discipline_witness:
  "\<not> locked funded
   \<and> snd (exec funded (SafeWithdraw 1 5 [SafeWithdraw 1 5 [] True] True)) =
        [(SafeWithdraw 1 5 [] True, Reverted (Error ''Reentrant call detected''))]
   \<and> nested_safeWithdraw_rejected
        (snd (exec funded (SafeWithdraw 1 5 [SafeWithdraw 1 5 [] True] True)))
   \<and> (\<exists>s'. fst (exec funded (SafeWithdraw 1 5 [SafeWithdraw 1 5 [] True] True)) = Inr s')
   \<and> \<not> locked (commit funded
         (fst (exec funded (SafeWithdraw 1 5 [SafeWithdraw 1 5 [] True] True))))
   \<and> balances (commit (commit funded
         (fst (exec funded (SafeWithdraw 1 5 [SafeWithdraw 1 5 [] True] True))))
         (fst (exec (commit funded
         (fst (exec funded (SafeWithdraw 1 5 [SafeWithdraw 1 5 [] True] True))))
           (SafeWithdraw 1 5 [] True)))) 1 = 0"
  using safeWithdraw_lock_discipline
    [of funded 1 5 "[SafeWithdraw 1 5 [] True]" True 7 "[]" 5 1]
  by (simp add: eval_defs)

text \<open>
  Claim C3 (checks, effects, interactions).  Take a \<^verbatim>\<open>safeWithdraw\<close> that passes its checks
  and reaches the transfer: lock free, amount within the caller's balance and within the
  contract's ether.  Then, for every external effect,
  \<^item> the effect is invoked on the state in which \<^verbatim>\<open>balances[caller]\<close> is already the old
    balance minus the amount (with the lock taken and the ether gone), and the result of
    \<^verbatim>\<open>safeWithdraw\<close> is what the effect makes of that state: on success its state with the
    withdrawal logged and the lock released, on failure the revert \<^verbatim>\<open>"Transfer failed"\<close>;
  \<^item> everything the receiving code sees is what its calls return from that state on; in
    particular, if the first thing it does is read \<^verbatim>\<open>balances(caller)\<close>, it reads the old
    balance minus the amount;
  \<^item> with a receiver that does nothing and reports success, the call returns the old state
    with the balance reduced by the amount, the ether paid and the withdrawal logged;
  \<^item> the result depends on the effect only through what the effect does in states where the
    caller's balance is the reduced one.
\<close>

theorem safeWithdraw_effect_sees_decrement:
  assumes "\<not> locked s" and "amount \<le> balances s sender" and "unat amount \<le> this_balance s"
  shows "safeWithdraw ext s sender amount =
           (case ext (s\<lparr>locked := True,
                         balances := (balances s)(sender := balances s sender - amount),
                         this_balance := this_balance s - unat amount\<rparr>) of
              (success, s2, tr) \<Rightarrow>
                if success
                then (Inr (s2\<lparr>events := events s2 @ [Withdrawal_ev sender amount],
                              locked := False\<rparr>), tr)
                else (Inl (Error ''Transfer failed''), tr))
     \<and> snd (exec s (SafeWithdraw sender amount cs ok)) =
         snd (run (s\<lparr>locked := True,
                      balances := (balances s)(sender := balances s sender - amount),
                      this_balance := this_balance s - unat amount\<rparr>) cs)
     \<and> take 1 (snd (exec s (SafeWithdraw sender amount (Get_balances sender # cs) ok))) =
           [(Get_balances sender, Returned_uint (balances s sender - amount))]
     \<and> exec s (SafeWithdraw sender amount [] True) =
         (Inr (s\<lparr>balances := (balances s)(sender := balances s sender - amount),
                 this_balance := this_balance s - unat amount,
                 events := events s @ [Withdrawal_ev sender amount]\<rparr>), [])
     \<and> ((\<forall>s'. balances s' sender = balances s sender - amount \<longrightarrow> ext s' = ext' s') \<longrightarrow>
          safeWithdraw ext s sender amount = safeWithdraw ext' s sender amount)"
proof -
  let ?x = "s\<lparr>locked := True,
               balances := (balances s)(sender := balances s sender - amount),
               this_balance := this_balance s - unat amount\<rparr>"
  have general: "safeWithdraw ext s sender amount =
           (case ext ?x of
              (success, s2, tr) \<Rightarrow>
                if success
                then (Inr (s2\<lparr>events := events s2 @ [Withdrawal_ev sender amount],
                              locked := False\<rparr>), tr)
                else (Inl (Error ''Transfer failed''), tr))" for ext
    using assms
    by (cases "ext ?x")
       (auto simp: safeWithdraw_def call_value_def checked_sub_def Let_def)
  have trace: "snd (exec s (SafeWithdraw sender amount cs ok)) = snd (run ?x cs)" for cs ok
    by (cases "run ?x cs") (simp add: general)
  have head: "take 1 (snd (exec s (SafeWithdraw sender amount (Get_balances sender # cs) ok))) =
           [(Get_balances sender, Returned_uint (balances s sender - amount))]"
    unfolding trace by (simp add: returned_def commit_def split: prod.splits)
  have plain: "exec s (SafeWithdraw sender amount [] True) =
         (Inr (s\<lparr>balances := (balances s)(sender := balances s sender - amount),
                 this_balance := this_balance s - unat amount,
                 events := events s @ [Withdrawal_ev sender amount]\<rparr>), [])"
    using assms(1) by (simp add: general)
  have cong: "safeWithdraw ext s sender amount = safeWithdraw ext' s sender amount"
    if "\<forall>s'. balances s' sender = balances s sender - amount \<longrightarrow> ext s' = ext' s'"
  proof -
    from that have "ext ?x = ext' ?x" by simp
    then show ?thesis by (simp add: general)
  qed
  from general[of ext] trace head plain cong show ?thesis by blast
qed

theorem safeWithdraw_effect_sees_decrement_witness:
  "\<not> locked funded \<and> (4::uint256) \<le> balances funded 1 \<and> unat (4::uint256) \<le> this_balance funded
   \<and> balances funded 1 = 10
   \<and> exec funded (SafeWithdraw 1 4 [Get_balances 1] True) =
        (Inr (funded\<lparr>balances := (balances funded)(1 := 6), this_balance := 26,
                     events := events funded @ [Withdrawal_ev 1 4]\<rparr>),
         [(Get_balances 1, Returned_uint 6)])"
  using safeWithdraw_effect_sees_decrement [of funded 4 1 "\<lambda>s. (True, s, [])" "[]" True]
  by (simp add: eval_defs)

text \<open>
  Claim C4 (withdraw fails when the transfer fails).  In a \<^verbatim>\<open>safeWithdraw\<close> with the lock
  free and an amount within the caller's balance, when the receiving code reports failure
  (whatever it did before), when the contract holds too little ether for the call to be made,
  or for any external effect that always reports failure, the call reverts with
  \<^verbatim>\<open>"Transfer failed"\<close>.  The revert undoes the decrement: the state, and with it the caller's
  balance, is the one from before the call.
\<close>

theorem safeWithdraw_transfer_failed:
  assumes "\<not> locked s" and "amount \<le> balances s sender"
  shows "fst (exec s (SafeWithdraw sender amount cs False)) = Inl (Error ''Transfer failed'')
     \<and> (this_balance s < unat amount \<longrightarrow>
          fst (exec s (SafeWithdraw sender amount cs ok)) = Inl (Error ''Transfer failed''))
     \<and> ((\<forall>s'. \<not> fst (ext s')) \<longrightarrow>
          fst (safeWithdraw ext s sender amount) = Inl (Error ''Transfer failed''))
     \<and> commit s (fst (exec s (SafeWithdraw sender amount cs False))) = s"
proof -
  let ?x = "s\<lparr>locked := True,
               balances := (balances s)(sender := balances s sender - amount),
               this_balance := this_balance s - unat amount\<rparr>"
  have reported: "fst (exec s (SafeWithdraw sender amount cs False)) = Inl (Error ''Transfer failed'')"
    using assms
    by (auto simp: safeWithdraw_def call_value_def checked_sub_def Let_def split: prod.splits)
  have no_ether: "fst (exec s (SafeWithdraw sender amount cs ok)) = Inl (Error ''Transfer failed'')"
    if "this_balance s < unat amount"
    using assms that
    by (auto simp: safeWithdraw_def call_value_def checked_sub_def Let_def split: prod.splits)
  have any_effect: "fst (safeWithdraw ext s sender amount) = Inl (Error ''Transfer failed'')"
    if "\<forall>s'. \<not> fst (ext s')"
  proof -
    from that have "\<not> fst (ext ?x)" by blast
    then show ?thesis
      using assms
      by (cases "ext ?x")
         (auto simp: safeWithdraw_def call_value_def checked_sub_def Let_def split: prod.splits)
  qed
  from reported have "commit s (fst (exec s (SafeWithdraw sender amount cs False))) = s"
    by (simp add: commit_def)
  with reported no_ether any_effect show ?thesis by blast
qed

theorem safeWithdraw_transfer_failed_witness:
  "\<not> locked funded \<and> (4::uint256) \<le> balances funded 1
   \<and> fst (exec funded (SafeWithdraw 1 4 [Deposit 2 1] False)) = Inl (Error ''Transfer failed'')
   \<and> balances (commit funded (fst (exec funded (SafeWithdraw 1 4 [Deposit 2 1] False)))) 1 = 10"
  using safeWithdraw_transfer_failed [of funded 4 1 "[Deposit 2 1]" True "\<lambda>s. (False, s, [])"]
  by (simp add: eval_defs)

text \<open>
  Claim C7 (authorization).  \<^verbatim>\<open>Coin.mint\<close> called by an account other than the minter reverts
  with \<^verbatim>\<open>"Only the minter can create new coins"\<close>, and \<^verbatim>\<open>safeChangeOwner\<close> called by an
  account other than the owner reverts with \<^verbatim>\<open>"Not the owner"\<close>; these are the source's
  messages for an unauthorized caller.  Neither call changes the state.
\<close>


theorem non_owner_rejected:
  assumes "sender \<noteq> minter c" and "caller \<noteq> owner s"
  shows "Coin_mint c sender receiver amount = Inl (Error ''Only the minter can create new coins'')
     \<and> commit c (Coin_mint c sender receiver amount) = c
     \<and> exec s (SafeChangeOwner caller newOwner) = (Inl (Error ''Not the owner''), [])
     \<and> commit s (fst (exec s (SafeChangeOwner caller newOwner))) = s"
  using assms by (simp add: Coin_mint_def safeChangeOwner_def commit_def)

theorem non_owner_rejected_witness:
  "(2::address) \<noteq> minter coin_demo \<and> (1::address) \<noteq> owner funded
   \<and> Coin_mint coin_demo 2 3 10 = Inl (Error ''Only the minter can create new coins'')
   \<and> coin_balances (commit coin_demo (Coin_mint coin_demo 2 3 10)) 3 = 0
   \<and> exec funded (SafeChangeOwner 1 1) = (Inl (Error ''Not the owner''), [])
   \<and> owner (commit funded (fst (exec funded (SafeChangeOwner 1 1)))) = 7"
  using non_owner_rejected [of 2 coin_demo 1 funded 3 10 1]
  by (simp add: coin_demo_def Coin_constructor_def Coin_mint_def Coin_send_def eval_defs)

text \<open>
  Claim C9 (the unprotected owner change).  \<^verbatim>\<open>unsafeChangeOwner\<close> succeeds for every caller
  and every new owner, in every state, and sets \<^verbatim>\<open>owner\<close> to the given address without
  changing anything else.  So any account can make itself the owner and then use the guarded
  \<^verbatim>\<open>safeChangeOwner\<close> as well.
\<close>

theorem unsafeChangeOwner_unrestricted:
  "fst (exec s (UnsafeChangeOwner sender newOwner)) = Inr (s\<lparr>owner := newOwner\<rparr>)
   \<and> owner (fst (run s [UnsafeChangeOwner sender sender, SafeChangeOwner sender newOwner]))
       = newOwner"
  by (simp add: unsafeChangeOwner_def safeChangeOwner_def commit_def)


section \<open>SecurityPitfalls: what re-entering unsafeWithdraw can take\<close>

lemma withdrawn_append: "withdrawn (xs @ ys) a = withdrawn xs a + withdrawn ys a"
  by (induction xs a rule: withdrawn.induct) auto

lemma deposited_append: "deposited (xs @ ys) a = deposited xs a + deposited ys a"
  by (induction xs a rule: deposited.induct) auto

lemma total_withdrawn_append:
  "total_withdrawn (xs @ ys) = total_withdrawn xs + total_withdrawn ys"
  by (induction xs rule: total_withdrawn.induct) auto

lemma total_deposited_append:
  "total_deposited (xs @ ys) = total_deposited xs + total_deposited ys"
  by (induction xs rule: total_deposited.induct) auto

lemma credit_deposit: "deposit s sender v = Inr s' \<Longrightarrow> credit s' a = credit s a"
  by (auto simp: deposit_def receive_value_def checked_add_def credit_def Let_def
        withdrawn_append deposited_append uint_checked_add split: if_splits)

lemma credit_this_balance [simp]: "credit (s\<lparr>this_balance := n\<rparr>) a = credit s a"
  by (simp add: credit_def)

lemma credit_unsafeWithdraw:
  assumes "unsafeWithdraw ext s sender amount = (Inr s', tr)"
    and "\<And>x ok s1 tr1. ext x = (ok, s1, tr1) \<Longrightarrow> credit s1 a = credit x a"
  shows "credit s' a = credit s a"
proof -
  from assms(1) obtain s1 where
    e: "ext (s\<lparr>this_balance := this_balance s - unat amount\<rparr>) = (True, s1, tr)"
    and le: "amount \<le> balances s1 sender"
    and s': "s' = s1\<lparr>balances := (balances s1)(sender := balances s1 sender - amount),
                     events := events s1 @ [Withdrawal_ev sender amount]\<rparr>"
    by (auto simp: unsafeWithdraw_def call_value_def checked_sub_def Let_def
             split: if_splits prod.splits)
  from assms(2)[OF e] have "credit s1 a = credit s a" by simp
  moreover have "credit s' a = credit s1 a"
    using uint_checked_sub[OF le] by (auto simp: s' credit_def withdrawn_append deposited_append)
  ultimately show ?thesis by simp
qed

lemma credit_safeWithdraw:
  assumes "safeWithdraw ext s sender amount = (Inr s', tr)"
    and "\<And>x ok s1 tr1. ext x = (ok, s1, tr1) \<Longrightarrow> credit s1 a = credit x a"
  shows "credit s' a = credit s a"
proof -
  define s0 where "s0 = s\<lparr>locked := True,
     balances := (balances s)(sender := balances s sender - amount)\<rparr>"
  from assms(1) obtain s2 where
    e: "ext (s0\<lparr>this_balance := this_balance s - unat amount\<rparr>) = (True, s2, tr)"
    and le: "amount \<le> balances s sender"
    and s': "s' = s2\<lparr>events := events s2 @ [Withdrawal_ev sender amount], locked := False\<rparr>"
    by (auto simp: safeWithdraw_def call_value_def checked_sub_def Let_def s0_def
             split: if_splits prod.splits)
  from assms(2)[OF e] have "credit s2 a = credit s0 a" by simp
  moreover have "credit s' a = credit s2 a + (if sender = a then uint amount else 0)"
    by (auto simp: s' credit_def withdrawn_append deposited_append)
  moreover have "credit s0 a = credit s a - (if sender = a then uint amount else 0)"
    using uint_checked_sub[OF le] by (auto simp: s0_def credit_def)
  ultimately show ?thesis by simp
qed

lemma credit_preserved:
  "(\<forall>s' tr. exec s c = (Inr s', tr) \<longrightarrow> credit s' a = credit s a)"
  "(\<forall>s' tr. run s cs = (s', tr) \<longrightarrow> credit s' a = credit s a)"
proof (induction s c and s cs rule: exec_run.induct)
  case (1 s sender v)
  then show ?case by (simp add: credit_deposit)
next
  case (2 s sender v)
  then show ?case by (simp add: credit_deposit)
next
  case (3 s sender amount cs ok)
  show ?case
  proof (intro allI impI)
    fix s' tr assume "exec s (UnsafeWithdraw sender amount cs ok) = (Inr s', tr)"
    then show "credit s' a = credit s a"
      using 3 by (auto elim!: credit_unsafeWithdraw split: prod.splits)
  qed
next
  case (4 s sender amount cs ok)
  show ?case
  proof (intro allI impI)
    fix s' tr assume "exec s (SafeWithdraw sender amount cs ok) = (Inr s', tr)"
    then show "credit s' a = credit s a"
      using 4 by (auto elim!: credit_safeWithdraw split: prod.splits)
  qed
next
  case (12 s c cs)
  show ?case
  proof (intro allI impI)
    fix s' tr assume run: "run s (c # cs) = (s', tr)"
    obtain r tr1 where e: "exec s c = (r, tr1)" by (cases "exec s c")
    obtain s2 tr2 where r2: "run (commit s r) cs = (s2, tr2)" by (cases "run (commit s r) cs")
    from run e r2 have "s' = s2" by simp
    moreover from "12.IH"(2)[of r tr1] e r2 have "credit s2 a = credit (commit s r) a" by simp
    moreover from "12.IH"(1) e have "credit (commit s r) a = credit s a"
      by (cases r) (auto simp: commit_def)
    ultimately show "credit s' a = credit s a" by simp
  qed
qed (auto simp: safeTransfer_def unsafeChangeOwner_def safeChangeOwner_def credit_def
       split: if_splits)

lemma reserve_deposit: "deposit s sender v = Inr s' \<Longrightarrow> reserve s' = reserve s"
  by (auto simp: deposit_def receive_value_def checked_add_def reserve_def Let_def
        total_withdrawn_append total_deposited_append split: if_splits)

lemma reserve_unsafeWithdraw:
  assumes "unsafeWithdraw ext s sender amount = (Inr s', tr)"
    and "\<And>x ok s1 tr1. ext x = (ok, s1, tr1) \<Longrightarrow> reserve s1 = reserve x"
  shows "reserve s' = reserve s"
proof -
  from assms(1) obtain s1 where
    e: "ext (s\<lparr>this_balance := this_balance s - unat amount\<rparr>) = (True, s1, tr)"
    and le: "unat amount \<le> this_balance s"
    and s': "s' = s1\<lparr>balances := (balances s1)(sender := balances s1 sender - amount),
                     events := events s1 @ [Withdrawal_ev sender amount]\<rparr>"
    by (auto simp: unsafeWithdraw_def call_value_def checked_sub_def Let_def
             split: if_splits prod.splits)
  from assms(2)[OF e] le have "reserve s1 = reserve s - int (unat amount)"
    by (simp add: reserve_def)
  moreover have "reserve s' = reserve s1 + int (unat amount)"
    by (simp add: s' reserve_def total_withdrawn_append total_deposited_append)
  ultimately show ?thesis by simp
qed

lemma reserve_safeWithdraw:
  assumes "safeWithdraw ext s sender amount = (Inr s', tr)"
    and "\<And>x ok s1 tr1. ext x = (ok, s1, tr1) \<Longrightarrow> reserve s1 = reserve x"
  shows "reserve s' = reserve s"
proof -
  define s0 where "s0 = s\<lparr>locked := True,
     balances := (balances s)(sender := balances s sender - amount)\<rparr>"
  from assms(1) obtain s2 where
    e: "ext (s0\<lparr>this_balance := this_balance s - unat amount\<rparr>) = (True, s2, tr)"
    and le: "unat amount \<le> this_balance s"
    and s': "s' = s2\<lparr>events := events s2 @ [Withdrawal_ev sender amount], locked := False\<rparr>"
    by (auto simp: safeWithdraw_def call_value_def checked_sub_def Let_def s0_def
             split: if_splits prod.splits)
  from assms(2)[OF e] le have "reserve s2 = reserve s - int (unat amount)"
    by (simp add: reserve_def s0_def)
  moreover have "reserve s' = reserve s2 + int (unat amount)"
    by (simp add: s' reserve_def total_withdrawn_append total_deposited_append)
  ultimately show ?thesis by simp
qed

lemma reserve_preserved:
  "(\<forall>s' tr. exec s c = (Inr s', tr) \<longrightarrow> reserve s' = reserve s)"
  "(\<forall>s' tr. run s cs = (s', tr) \<longrightarrow> reserve s' = reserve s)"
proof (induction s c and s cs rule: exec_run.induct)
  case (1 s sender v)
  then show ?case by (simp add: reserve_deposit)
next
  case (2 s sender v)
  then show ?case by (simp add: reserve_deposit)
next
  case (3 s sender amount cs ok)
  show ?case
  proof (intro allI impI)
    fix s' tr assume "exec s (UnsafeWithdraw sender amount cs ok) = (Inr s', tr)"
    then show "reserve s' = reserve s"
      using 3 by (auto elim!: reserve_unsafeWithdraw split: prod.splits)
  qed
next
  case (4 s sender amount cs ok)
  show ?case
  proof (intro allI impI)
    fix s' tr assume "exec s (SafeWithdraw sender amount cs ok) = (Inr s', tr)"
    then show "reserve s' = reserve s"
      using 4 by (auto elim!: reserve_safeWithdraw split: prod.splits)
  qed
next
  case (12 s c cs)
  show ?case
  proof (intro allI impI)
    fix s' tr assume run: "run s (c # cs) = (s', tr)"
    obtain r tr1 where e: "exec s c = (r, tr1)" by (cases "exec s c")
    obtain s2 tr2 where r2: "run (commit s r) cs = (s2, tr2)" by (cases "run (commit s r) cs")
    from run e r2 have "s' = s2" by simp
    moreover from "12.IH"(2)[of r tr1] e r2 have "reserve s2 = reserve (commit s r)" by simp
    moreover from "12.IH"(1) e have "reserve (commit s r) = reserve s"
      by (cases r) (auto simp: commit_def)
    ultimately show "reserve s' = reserve s" by simp
  qed
qed (auto simp: safeTransfer_def unsafeChangeOwner_def safeChangeOwner_def reserve_def
       split: if_splits)

lemma credit_exec: "exec s c = (Inr s', tr) \<Longrightarrow> credit s' a = credit s a"
  using credit_preserved(1)[of s c a] by simp

lemma reserve_exec: "exec s c = (Inr s', tr) \<Longrightarrow> reserve s' = reserve s"
  using reserve_preserved(1)[of s c] by simp


text \<open>
  For every successful call, whatever the receiving code does, what an account is paid out
  is at most the balance recorded for it before the call plus what it deposited meanwhile:
  the checked subtraction at the end of \<^verbatim>\<open>unsafeWithdraw\<close> reverts the call otherwise.
\<close>

lemma payout_bounded:
  assumes "exec s c = (Inr s', tr)"
  shows "withdrawn (events s') a + deposited (events s) a
           \<le> unat (balances s a) + withdrawn (events s) a + deposited (events s') a"
proof -
  have "credit s' a = credit s a" using credit_exec[OF assms] .
  moreover have "0 \<le> uint (balances s' a)" by simp
  moreover have "uint (balances s a) = int (unat (balances s a))" by simp
  ultimately show ?thesis unfolding credit_def by linarith
qed

text \<open>
  Claim C10 (re-entering \<^verbatim>\<open>unsafeWithdraw\<close>).  \<^verbatim>\<open>unsafeWithdraw\<close> sends the ether before it
  reduces the balance and takes no lock (nothing is assumed about \<^verbatim>\<open>locked\<close>).  Take an
  amount within the caller's balance whose double exceeds that balance, and a contract that
  holds at least twice the amount.  Then
  \<^item> the receiving code reads the balance not yet reduced;
  \<^item> for the external effect that calls \<^verbatim>\<open>unsafeWithdraw\<close> again with the same amount and
    then deposits the amount, the nested call passes its balance check and returns, the
    outer call succeeds, and the withdrawals paid to the caller during the call total twice
    the amount, which is more than the balance recorded for it before the call;
  \<^item> so there is an external effect that re-invokes \<^verbatim>\<open>unsafeWithdraw\<close>, whose nested call
    returns, and with which the total paid out exceeds the recorded balance;
  \<^item> the nested call passes only because the balance is not yet reduced: inside
    \<^verbatim>\<open>safeWithdraw\<close>, which reduces it first, the same nested call reverts with
    \<^verbatim>\<open>"Insufficient balance"\<close>.
\<close>

theorem unsafeWithdraw_reentrancy_exceeds_balance:
  assumes "amount \<le> balances s sender" and "2 * unat amount \<le> this_balance s"
    and "unat (balances s sender) < 2 * unat amount"
  shows "take 1 (snd (exec s (UnsafeWithdraw sender amount (Get_balances sender # cs) ok))) =
           [(Get_balances sender, Returned_uint (balances s sender))]
     \<and> exec s (UnsafeWithdraw sender amount
                 [UnsafeWithdraw sender amount [] True, Deposit sender amount] True) =
         (Inr (s\<lparr>balances := (balances s)(sender := balances s sender - amount),
                 this_balance := this_balance s - unat amount,
                 events := events s @ [Withdrawal_ev sender amount, Deposit_ev sender amount,
                                       Withdrawal_ev sender amount]\<rparr>),
          [(UnsafeWithdraw sender amount [] True, Returned), (Deposit sender amount, Returned)])
     \<and> withdrawn (events s) sender + unat (balances s sender)
         < withdrawn (events s @ [Withdrawal_ev sender amount, Deposit_ev sender amount,
                                   Withdrawal_ev sender amount]) sender
     \<and> (\<exists>cs ok s' tr. exec s (UnsafeWithdraw sender amount cs ok) = (Inr s', tr)
            \<and> (UnsafeWithdraw sender amount [] True, Returned) \<in> set tr
            \<and> withdrawn (events s) sender + unat (balances s sender)
                 < withdrawn (events s') sender)
     \<and> (\<not> locked s \<longrightarrow>
          snd (exec s (SafeWithdraw sender amount [UnsafeWithdraw sender amount [] True] True)) =
            [(UnsafeWithdraw sender amount [] True, Reverted (Error ''Insufficient balance''))])"
proof -
  let ?attack = "[UnsafeWithdraw sender amount [] True, Deposit sender amount]"
  let ?s' = "s\<lparr>balances := (balances s)(sender := balances s sender - amount),
                 this_balance := this_balance s - unat amount,
                 events := events s @ [Withdrawal_ev sender amount, Deposit_ev sender amount,
                                       Withdrawal_ev sender amount]\<rparr>"
  have debit: "unat (balances s sender - amount) = unat (balances s sender) - unat amount"
    and within: "unat amount \<le> unat (balances s sender)"
    using assms(1) by (simp_all add: unat_sub word_le_nat_alt)
  have refund: "unat (balances s sender - amount) + unat amount < 2 ^ 256"
    using debit within unsigned_less[of "balances s sender", where 'a = nat] by simp
  have late: "\<not> amount \<le> balances s sender - amount"
    using debit assms(3) by (simp add: word_le_nat_alt)
  have first: "take 1 (snd (exec s (UnsafeWithdraw sender amount (Get_balances sender # cs) ok))) =
        [(Get_balances sender, Returned_uint (balances s sender))]"
    using assms(1,2)
    by (auto simp: unsafeWithdraw_def call_value_def checked_sub_def Let_def returned_def
          commit_def split: prod.splits)
  have attack: "exec s (UnsafeWithdraw sender amount ?attack True) =
         (Inr ?s', [(UnsafeWithdraw sender amount [] True, Returned),
                    (Deposit sender amount, Returned)])"
    using assms(1,2) refund
    by (simp add: unsafeWithdraw_def call_value_def checked_sub_def checked_add_def deposit_def
          receive_value_def Let_def returned_def commit_def)
  have gross: "withdrawn (events s) sender + unat (balances s sender)
         < withdrawn (events s @ [Withdrawal_ev sender amount, Deposit_ev sender amount,
                                   Withdrawal_ev sender amount]) sender"
    using assms(3) by (simp add: withdrawn_append)
  have ex: "\<exists>cs ok s' tr. exec s (UnsafeWithdraw sender amount cs ok) = (Inr s', tr)
            \<and> (UnsafeWithdraw sender amount [] True, Returned) \<in> set tr
            \<and> withdrawn (events s) sender + unat (balances s sender)
                 < withdrawn (events s') sender"
    using attack gross
    by (intro exI[of _ ?attack] exI[of _ True] exI[of _ ?s']
          exI[of _ "[(UnsafeWithdraw sender amount [] True, Returned),
                     (Deposit sender amount, Returned)]"]) simp
  have guarded: "snd (exec s (SafeWithdraw sender amount [UnsafeWithdraw sender amount [] True] True)) =
            [(UnsafeWithdraw sender amount [] True, Reverted (Error ''Insufficient balance''))]"
    if "\<not> locked s"
    using that assms(1,2) late
    by (simp add: safeWithdraw_def unsafeWithdraw_def call_value_def checked_sub_def Let_def
          returned_def commit_def)
  from first attack gross ex guarded show ?thesis by blast
qed

theorem unsafeWithdraw_reentrancy_exceeds_balance_witness:
  "(10::uint256) \<le> balances funded 1 \<and> 2 * unat (10::uint256) \<le> this_balance funded
   \<and> unat (balances funded 1) < 2 * unat (10::uint256)
   \<and> balances funded 1 = 10 \<and> this_balance funded = 30
   \<and> exec funded (UnsafeWithdraw 1 10 [UnsafeWithdraw 1 10 [] True, Deposit 1 10] True) =
        (Inr (funded\<lparr>balances := (balances funded)(1 := 0), this_balance := 20,
                     events := events funded @ [Withdrawal_ev 1 10, Deposit_ev 1 10,
                                                Withdrawal_ev 1 10]\<rparr>),
         [(UnsafeWithdraw 1 10 [] True, Returned), (Deposit 1 10, Returned)])
   \<and> withdrawn (events funded) 1 = 0
   \<and> withdrawn (events funded @ [Withdrawal_ev 1 10, Deposit_ev 1 10, Withdrawal_ev 1 10]) 1 = 20"
  using unsafeWithdraw_reentrancy_exceeds_balance [of 10 funded 1 "[]" True]
  by (simp add: eval_defs)


end
